theory Spec2Isabelle
  imports Main "HOL-Library.List_Lexorder" "HOL-Library.Multiset"
begin

section \<open>OpenSBLI kernel and OPSC code generation: shallow embedding\<close>

text \<open>
  The development embeds the kernel bookkeeping of \<^verbatim>\<open>opensbli/core/kernel.py\<close>, the halo
  reduction of \<^verbatim>\<open>opensbli/utilities/helperfunctions.py\<close> and the stencil and printing
  routines of \<^verbatim>\<open>opensbli/opsc.py\<close>.

  Conventions of the embedding.
  \<^item> A Python exception is a value of type \<open>error\<close>; a function that may raise returns
    \<open>error + 'a\<close>, or the pair of an optional error and the state reached when the
    state mutated before the raise matters.
  \<^item> A Python \<open>set\<close> is a duplicate-free list; the order of the list stands for the
    iteration order, which Python leaves unspecified. The loops over such sets are
    separate functions over lists, and the lemmas about them hold for every list.
  \<^item> A Python \<open>dict\<close> whose length or order is read is an association list, looked
    up with \<open>map_of\<close>; otherwise it is a map.
\<close>

subsection \<open>Exceptions\<close>

datatype error =
    ValueError string
  | IndexError
  | KeyError
  | TypeError
  | AttributeError

subsection \<open>Formatting of integers (\<^verbatim>\<open>%d\<close>, \<^verbatim>\<open>str\<close>)\<close>

definition digit_char :: "nat \<Rightarrow> char" where
  "digit_char d = ''0123456789'' ! d"

function str_nat :: "nat \<Rightarrow> string" where
  "str_nat n = (if n < 10 then [digit_char n] else str_nat (n div 10) @ [digit_char (n mod 10)])"
  by pat_completeness auto
termination
  by (relation "measure id") auto

declare str_nat.simps [simp del]

definition str_int :: "int \<Rightarrow> string" where
  "str_int i = (if i < 0 then CHR ''-'' # str_nat (nat (- i)) else str_nat (nat i))"

text \<open>\<^verbatim>\<open>sep.join(xs)\<close>.\<close>

fun join :: "string \<Rightarrow> string list \<Rightarrow> string" where
  "join sep [] = []"
| "join sep [x] = x"
| "join sep (x # y # ys) = x @ sep @ join sep (y # ys)"

subsection \<open>Symbolic expressions\<close>

text \<open>
  An index of a field reference is an integer polynomial in symbols: the loop symbol of a
  dimension plus a fixed offset, in every reference the discretisation builds.
\<close>

datatype index =
    IInt int
  | ISym string
  | IAdd index index
  | IMul index index

text \<open>
  \<^verbatim>\<open>for a in v.atoms(Symbol): outv = outv.subs(a, 0)\<close>: every symbol of the index, loop
  symbol or not, is replaced by 0; the symbolic library evaluates sums and products of
  numbers at once, so what is left is the integer value of the index at zero.
\<close>

fun zero_symbols :: "index \<Rightarrow> int" where
  "zero_symbols (IInt n) = n"
| "zero_symbols (ISym a) = 0"
| "zero_symbols (IAdd u v) = zero_symbols u + zero_symbols v"
| "zero_symbols (IMul u v) = zero_symbols u * zero_symbols v"


fun index_ints :: "index \<Rightarrow> int list" where
  "index_ints (IInt n) = [n]"
| "index_ints (ISym a) = []"
| "index_ints (IAdd u v) = index_ints u @ index_ints v"
| "index_ints (IMul u v) = index_ints u @ index_ints v"

text \<open>
  The expressions of an equation. \<open>Integer n\<close> and \<open>Rational p q\<close> are the two
  number classes of the symbolic library: \<open>Integer\<close> is a subclass of \<open>Rational\<close>, and
  an object of class \<open>Rational\<close> proper is never an integer (the library's constructor
  returns an \<open>Integer\<close> for p/1). \<open>DataSet b is\<close> is the field reference with base
  label \<open>b\<close> and indices \<open>is\<close>.
\<close>

datatype expr =
    Integer int
  | Rational int int
  | Symbol string
  | DataSet string "index list"
  | Add expr expr
  | Mul expr expr
  | Pow expr expr

text \<open>\<^verbatim>\<open>isinstance(e, Integer)\<close> and \<^verbatim>\<open>isinstance(e, Rational)\<close>.\<close>

fun isinstance_Integer :: "expr \<Rightarrow> bool" where
  "isinstance_Integer (Integer n) = True"
| "isinstance_Integer e = False"

fun isinstance_Rational :: "expr \<Rightarrow> bool" where
  "isinstance_Rational (Integer n) = True"
| "isinstance_Rational (Rational p q) = True"
| "isinstance_Rational e = False"

text \<open>\<^verbatim>\<open>e.atoms(DataSetBase)\<close>: the base labels of the field references of \<open>e\<close>.\<close>

fun atoms_DataSetBase :: "expr \<Rightarrow> string list" where
  "atoms_DataSetBase (DataSet b js) = [b]"
| "atoms_DataSetBase (Add u v) = atoms_DataSetBase u @ atoms_DataSetBase v"
| "atoms_DataSetBase (Mul u v) = atoms_DataSetBase u @ atoms_DataSetBase v"
| "atoms_DataSetBase (Pow u v) = atoms_DataSetBase u @ atoms_DataSetBase v"
| "atoms_DataSetBase e = []"

text \<open>\<^verbatim>\<open>e.atoms(DataSet)\<close>: the field references of \<open>e\<close>, base label and indices.\<close>

fun atoms_DataSet :: "expr \<Rightarrow> (string \<times> index list) list" where
  "atoms_DataSet (DataSet b js) = [(b, js)]"
| "atoms_DataSet (Add u v) = atoms_DataSet u @ atoms_DataSet v"
| "atoms_DataSet (Mul u v) = atoms_DataSet u @ atoms_DataSet v"
| "atoms_DataSet (Pow u v) = atoms_DataSet u @ atoms_DataSet v"
| "atoms_DataSet e = []"

text \<open>
  \<^verbatim>\<open>e.atoms(Rational)\<close>: every number object of \<open>e\<close>, the integers among them, those of
  the indices of a field reference included.
\<close>

fun atoms_Rational :: "expr \<Rightarrow> expr list" where
  "atoms_Rational (Integer n) = [Integer n]"
| "atoms_Rational (Rational p q) = [Rational p q]"
| "atoms_Rational (Symbol a) = []"
| "atoms_Rational (DataSet b js) = map Integer (concat (map index_ints js))"
| "atoms_Rational (Add u v) = atoms_Rational u @ atoms_Rational v"
| "atoms_Rational (Mul u v) = atoms_Rational u @ atoms_Rational v"
| "atoms_Rational (Pow u v) = atoms_Rational u @ atoms_Rational v"

subsection \<open>Python values handed to a kernel\<close>

text \<open>
  What \<^verbatim>\<open>Kernel.add_equation\<close> may receive: an \<open>Equality\<close>, a list, a tuple, or any
  other object, of which only the truth value is read.
\<close>

datatype pyval =
    Equality expr expr
  | PyList "pyval list"
  | PyTuple "pyval list"
  | PyOther bool



subsection \<open>The kernel\<close>

text \<open>
  \<open>'c\<close> is the class of the halo contributors (scheme halo objects); its method
  \<^verbatim>\<open>get_halos(side)\<close> is not part of these sources and is a parameter of the functions
  that call it. \<open>ident\<close> gives the identity of the \<open>DataSetBase\<close> object that stands
  for a label in the equations of this kernel: equal labels are one element of a Python
  set, so a kernel holds one object for each label.
\<close>

record 'c kernel =
  block_number :: int
  ndim :: nat
  block_name :: string
  computation_name :: "string option"
  kernel_no :: nat
  equations :: "pyval list"
  halo_ranges :: "('c list \<times> 'c list) list"
  ranges :: "(int \<times> int) list"
  stencil_names :: "(string \<times> string) list"
  ident :: "string \<Rightarrow> nat"


text \<open>\<^verbatim>\<open>s.union(t)\<close> on sets as duplicate-free lists.\<close>

definition set_union :: "'a list \<Rightarrow> 'a list \<Rightarrow> 'a list" where
  "set_union s t = s @ filter (\<lambda>x. x \<notin> set s) (remdups t)"

definition set_intersection :: "'a list \<Rightarrow> 'a list \<Rightarrow> 'a list" where
  "set_intersection s t = filter (\<lambda>x. x \<in> set t) s"

definition set_difference :: "'a list \<Rightarrow> 'a list \<Rightarrow> 'a list" where
  "set_difference s t = filter (\<lambda>x. x \<notin> set t) s"

text \<open>\<^verbatim>\<open>Kernel.lhs_datasets\<close> and \<^verbatim>\<open>Kernel.rhs_datasets\<close>\<close>

fun lhs_fold :: "string list \<Rightarrow> pyval list \<Rightarrow> string list" where
  "lhs_fold datasets [] = datasets"
| "lhs_fold datasets (Equality l r # eqs) = lhs_fold (set_union datasets (atoms_DataSetBase l)) eqs"
| "lhs_fold datasets (v # eqs) = lhs_fold datasets eqs"

fun rhs_fold :: "string list \<Rightarrow> pyval list \<Rightarrow> string list" where
  "rhs_fold datasets [] = datasets"
| "rhs_fold datasets (Equality l r # eqs) = rhs_fold (set_union datasets (atoms_DataSetBase r)) eqs"
| "rhs_fold datasets (v # eqs) = rhs_fold datasets eqs"

definition lhs_datasets :: "'c kernel \<Rightarrow> string list" where
  "lhs_datasets k = lhs_fold [] (equations k)"

definition rhs_datasets :: "'c kernel \<Rightarrow> string list" where
  "rhs_datasets k = rhs_fold [] (equations k)"

text \<open>
  The classification at the head of \<^verbatim>\<open>Kernel.opsc_code\<close>: the triple
  \<open>(ins, outs, inouts)\<close>.
\<close>

definition classify :: "'c kernel \<Rightarrow> string list \<times> string list \<times> string list" where
  "classify k =
     (let ins = rhs_datasets k;
          outs = lhs_datasets k;
          inouts = set_intersection ins outs;
          ins = set_difference ins inouts;
          outs = set_difference outs inouts
      in (ins, outs, inouts))"

text \<open>
  All fields referenced by the equations of a kernel: the base labels of the field
  references on either side of every equality.
\<close>

fun referenced_fields :: "pyval list \<Rightarrow> string set" where
  "referenced_fields [] = {}"
| "referenced_fields (Equality l r # eqs) =
     set (atoms_DataSetBase l) \<union> set (atoms_DataSetBase r) \<union> referenced_fields eqs"
| "referenced_fields (v # eqs) = referenced_fields eqs"

subsection \<open>Halo reduction and the iteration range\<close>

text \<open>\<^verbatim>\<open>min(hal)\<close> and \<^verbatim>\<open>max(hal)\<close> of a non-empty list.\<close>

fun py_min :: "int list \<Rightarrow> int" where
  "py_min [] = 0"
| "py_min (x # xs) = fold min xs x"

fun py_max :: "int list \<Rightarrow> int" where
  "py_max [] = 0"
| "py_max (x # xs) = fold max xs x"

text \<open>
  \<^verbatim>\<open>get_min_max_halo_values\<close>. The first argument is the method \<^verbatim>\<open>get_halos\<close> of the
  contributors.
\<close>

definition get_min_max_halo_values ::
  "('c \<Rightarrow> nat \<Rightarrow> int) \<Rightarrow> ('c list \<times> 'c list) list \<Rightarrow> int list \<times> int list" where
  "get_min_max_halo_values get_halos halos =
     (map (\<lambda>h. if fst h \<noteq> [] then py_min (map (\<lambda>d. get_halos d 0) (fst h)) else 0) halos,
      map (\<lambda>h. if snd h \<noteq> [] then py_max (map (\<lambda>d. get_halos d 1) (snd h)) else 0) halos)"

text \<open>
  The range computed in \<^verbatim>\<open>Kernel.opsc_code\<close>; reading \<^verbatim>\<open>self.ranges[d]\<close> or
  \<^verbatim>\<open>halo_m[d]\<close> beyond the end raises \<open>IndexError\<close>.
\<close>

definition range_of_eval :: "('c \<Rightarrow> nat \<Rightarrow> int) \<Rightarrow> 'c kernel \<Rightarrow> error + (int \<times> int) list" where
  "range_of_eval get_halos k =
     (let (halo_m, halo_p) = get_min_max_halo_values get_halos (halo_ranges k)
      in if ndim k \<le> length (ranges k) \<and> ndim k \<le> length (halo_ranges k)
         then Inr (map (\<lambda>d. (fst (ranges k ! d) + halo_m ! d, snd (ranges k ! d) + halo_p ! d))
                       [0..<ndim k])
         else Inl IndexError)"

text \<open>The declaration \<^verbatim>\<open>iter_name_code\<close> emitted by \<^verbatim>\<open>Kernel.opsc_code\<close>.\<close>

definition iter_name_code :: "('c \<Rightarrow> nat \<Rightarrow> int) \<Rightarrow> 'c kernel \<Rightarrow> error + string" where
  "iter_name_code get_halos k =
     (case range_of_eval get_halos k of
        Inl e \<Rightarrow> Inl e
      | Inr rs \<Rightarrow> Inr (''int iteration_range_'' @ str_nat (kernel_no k) @ ''[] = {''
                       @ join '', '' (map str_int (concat (map (\<lambda>r. [fst r, snd r]) rs))) @ ''};''))"

subsection \<open>Relative stencils (\<^verbatim>\<open>OPSC.relative_stencil\<close>)\<close>

text \<open>
  The loop \<^verbatim>\<open>for dim in range(len(indexes[0])): indexes = sorted(indexes, key=...)\<close>.
  \<^verbatim>\<open>sorted\<close> computes the key of every element, so a tuple with no entry \<open>dim\<close> raises
  \<open>IndexError\<close>; \<^verbatim>\<open>sorted\<close> is stable, as \<open>sort_key\<close> is.
\<close>

fun sort_by_dims :: "nat list \<Rightarrow> 'a::linorder list list \<Rightarrow> error + 'a list list" where
  "sort_by_dims [] indexes = Inr indexes"
| "sort_by_dims (dim # dims) indexes =
     (if \<exists>t \<in> set indexes. length t \<le> dim then Inl IndexError
      else sort_by_dims dims (sort_key (\<lambda>t. t ! dim) indexes))"

text \<open>
  \<^verbatim>\<open>OPSC.sort_stencil_indices\<close>. \<^verbatim>\<open>indexes[0]\<close> of the empty list raises; lists compare
  lexicographically in Python, as they do in \<open>List_Lexorder\<close>.
\<close>

definition sort_stencil_indices :: "'a::linorder list list \<Rightarrow> error + 'a list" where
  "sort_stencil_indices indexes =
     (case indexes of
        [] \<Rightarrow> Inl IndexError
      | first # _ \<Rightarrow>
          if length first > 1
          then (case sort_by_dims [0..<length first] indexes of
                  Inl e \<Rightarrow> Inl e
                | Inr sorted_indexes \<Rightarrow> Inr (concat sorted_indexes))
          else Inr (concat (sort indexes)))"



text \<open>
  \<^verbatim>\<open>StencilObject.sort_stencil_indices\<close>, on the elements of the stencil in iteration
  order: one sort with the key \<^verbatim>\<open>tuple(tup[i] for i in range(dim))\<close>.
\<close>

definition StencilObject_sort_stencil_indices :: "'a::linorder list list \<Rightarrow> error + 'a list list" where
  "StencilObject_sort_stencil_indices index_set =
     (case index_set of
        [] \<Rightarrow> Inl IndexError
      | first # _ \<Rightarrow>
          if \<exists>t \<in> set index_set. length t < length first then Inl IndexError
          else Inr (sort_key (take (length first)) index_set))"

subsection \<open>The stencil registry of the code emitter (\<^verbatim>\<open>OPSC.get_stencils\<close>)\<close>









subsection \<open>Finalisation of a kernel (\<^verbatim>\<open>Kernel.update_block_datasets\<close>)\<close>

text \<open>
  The block, as far as the kernel reads it. \<open>all_scheme_halos\<close> is the value of
  \<^verbatim>\<open>block.get_all_scheme_halos()\<close>.
\<close>

record 'c block =
  blocknumber :: int
  block_ndim :: nat
  blockname :: string
  shape :: "int list"
  all_scheme_halos :: "'c list"

text \<open>
  A \<open>DataSetBase\<close> object is its label and its identity. Objects are equal (\<^verbatim>\<open>==\<close>,
  \<^verbatim>\<open>in\<close>) when their labels are; their attributes live in a store indexed by the
  object, so that two references to one object see the same attributes.
\<close>

type_synonym obj = "string \<times> nat"

record 'c dataset_attrs =
  a_block_number :: int
  a_read_from_hdf5 :: bool
  a_size :: "int list"
  a_halo_ranges :: "('c list \<times> 'c list) list"
  a_block_name :: string

record StencilObject =
  so_name :: string
  so_stencil :: "index list set"
  so_ndim :: nat

text \<open>
  The registries: the program-wide list \<^verbatim>\<open>DataSetsToDeclare.datasetbases\<close>, the
  attribute store, and the dictionaries \<^verbatim>\<open>block_datasets\<close> and \<^verbatim>\<open>block_stencils\<close> of
  the block.
\<close>

record 'c registries =
  datasetbases :: "obj list"
  attrs :: "obj \<rightharpoonup> 'c dataset_attrs"
  block_datasets :: "string \<rightharpoonup> obj"
  block_stencils :: "(index list set \<times> StencilObject) list"

text \<open>
  \<^verbatim>\<open>dataset_attributes(d)\<close> followed by the assignments of size, block number, halo
  ranges and block name: the attributes of a field registered for block \<open>b\<close>.
\<close>

definition block_attrs :: "'c block \<Rightarrow> 'c dataset_attrs" where
  "block_attrs b =
     \<lparr>a_block_number = blocknumber b, a_read_from_hdf5 = False, a_size = shape b,
      a_halo_ranges = replicate (block_ndim b) (all_scheme_halos b, all_scheme_halos b),
      a_block_name = blockname b\<rparr>"

text \<open>
  The body of \<^verbatim>\<open>for d in dsets\<close>. The state is returned with the error: what was
  written before a raise stays written.
\<close>

definition register_dataset :: "'c block \<Rightarrow> 'c registries \<Rightarrow> obj \<Rightarrow> error option \<times> 'c registries" where
  "register_dataset b s d =
     (let s1 = (if fst d \<in> fst ` set (datasetbases s) then s
                else s\<lparr>datasetbases := datasetbases s @ [d],
                       attrs := (attrs s)(d \<mapsto> block_attrs b)\<rparr>)
      in case block_datasets s1 (fst d) of
           Some dset \<Rightarrow>
             (case attrs s1 dset of
                None \<Rightarrow> (Some AttributeError, s1)
              | Some a \<Rightarrow>
                  if blocknumber b \<noteq> a_block_number a then (Some (ValueError ''Block number error''), s1)
                  else if shape b \<noteq> a_size a then (Some (ValueError ''Shape error''), s1)
                  else (None, s1))
         | None \<Rightarrow>
             (None, s1\<lparr>attrs := (attrs s1)(d \<mapsto> block_attrs b),
                       block_datasets := (block_datasets s1)(fst d \<mapsto> d)\<rparr>))"

fun register_datasets :: "'c block \<Rightarrow> 'c registries \<Rightarrow> obj list \<Rightarrow> error option \<times> 'c registries" where
  "register_datasets b s [] = (None, s)"
| "register_datasets b s (d # ds) =
     (case register_dataset b s d of
        (Some e, s') \<Rightarrow> (Some e, s')
      | (None, s') \<Rightarrow> register_datasets b s' ds)"

text \<open>\<^verbatim>\<open>Kernel.get_stencils\<close>: for every base the frozen set of the index tuples used.\<close>

fun datasets_fold :: "(string \<times> index list) list \<Rightarrow> pyval list \<Rightarrow> (string \<times> index list) list" where
  "datasets_fold datasets [] = datasets"
| "datasets_fold datasets (Equality l r # eqs) =
     datasets_fold (set_union datasets (atoms_DataSet l @ atoms_DataSet r)) eqs"
| "datasets_fold datasets (v # eqs) = datasets_fold datasets eqs"

fun stencil_add ::
  "(string \<times> index list set) list \<Rightarrow> string \<times> index list \<Rightarrow> (string \<times> index list set) list" where
  "stencil_add [] (b, js) = [(b, {js})]"
| "stencil_add ((b', v) # d) (b, js) =
     (if b' = b then (b', insert js v) # d else (b', v) # stencil_add d (b, js))"

definition get_stencils :: "'c kernel \<Rightarrow> (string \<times> index list set) list" where
  "get_stencils k = foldl stencil_add [] (datasets_fold [] (equations k))"

text \<open>\<^verbatim>\<open>'stencil_%d_%02d' % (block.blocknumber, len(block.block_stencils.keys()))\<close>\<close>

definition stencil_name_of :: "int \<Rightarrow> nat \<Rightarrow> string" where
  "stencil_name_of bn n =
     ''stencil_'' @ str_int bn @ ''_'' @ (if n < 10 then ''0'' @ str_nat n else str_nat n)"

text \<open>
  The body of \<^verbatim>\<open>for dset, stencil in stens.iteritems()\<close>. A name recorded twice for one
  field would call \<^verbatim>\<open>add\<close> on a string, an \<open>AttributeError\<close>.
\<close>

definition update_stencil ::
  "'c block \<Rightarrow> (index list set \<times> StencilObject) list \<times> (string \<times> string) list \<Rightarrow> string \<times> index list set
     \<Rightarrow> error + (index list set \<times> StencilObject) list \<times> (string \<times> string) list" where
  "update_stencil b acc kv =
     (let (bs, names) = acc; (dset, stencil) = kv;
          bs' = (if stencil \<notin> fst ` set bs
                 then bs @ [(stencil, \<lparr>so_name = stencil_name_of (blocknumber b) (length bs),
                                       so_stencil = stencil, so_ndim = block_ndim b\<rparr>)]
                 else bs)
      in case map_of bs' stencil of
           None \<Rightarrow> Inl KeyError
         | Some so \<Rightarrow>
             if dset \<notin> fst ` set names then Inr (bs', names @ [(dset, so_name so)])
             else Inl AttributeError)"

fun update_stencils_loop ::
  "'c block \<Rightarrow> (index list set \<times> StencilObject) list \<times> (string \<times> string) list \<Rightarrow> (string \<times> index list set) list
     \<Rightarrow> error + (index list set \<times> StencilObject) list \<times> (string \<times> string) list" where
  "update_stencils_loop b acc [] = Inr acc"
| "update_stencils_loop b acc (kv # kvs) =
     (case update_stencil b acc kv of Inl e \<Rightarrow> Inl e | Inr acc' \<Rightarrow> update_stencils_loop b acc' kvs)"

text \<open>
  \<^verbatim>\<open>Kernel.update_block_datasets\<close>: the fields of the kernel are registered, then its
  stencils. The result is the error raised, if any, and the kernel and the registries as
  they are at that moment.
\<close>

definition dsets :: "'c kernel \<Rightarrow> obj list" where
  "dsets k = map (\<lambda>l. (l, ident k l)) (set_union (lhs_datasets k) (rhs_datasets k))"

definition update_block_datasets ::
  "'c kernel \<Rightarrow> 'c block \<Rightarrow> 'c registries \<Rightarrow> error option \<times> 'c kernel \<times> 'c registries" where
  "update_block_datasets k b s =
     (let k0 = k\<lparr>stencil_names := []\<rparr> in
      case register_datasets b s (dsets k0) of
        (Some e, s') \<Rightarrow> (Some e, k0, s')
      | (None, s') \<Rightarrow>
          (case update_stencils_loop b (block_stencils s', []) (get_stencils k0) of
             Inl e \<Rightarrow> (Some e, k0, s')
           | Inr (bs, names) \<Rightarrow> (None, k0\<lparr>stencil_names := names\<rparr>, s'\<lparr>block_stencils := bs\<rparr>)))"

subsection \<open>The expression printer (\<^verbatim>\<open>OPSCCodePrinter\<close>, \<^verbatim>\<open>ccode\<close>)\<close>

text \<open>\<^verbatim>\<open>_print_Rational\<close>: \<^verbatim>\<open>'%d.0/%d.0' % (p, q)\<close>\<close>

definition print_Rational :: "int \<Rightarrow> int \<Rightarrow> string" where
  "print_Rational p q = str_int p @ ''.0/'' @ str_int q @ ''.0''"

text \<open>
  \<open>Indexed_accs\<close> is \<open>None\<close> or a dictionary from the base to its tag, a string or
  \<open>None\<close>; \<open>None\<close> and the empty string are false.
\<close>

type_synonym indexed_accs = "(string \<rightharpoonup> string option) option"

fun tag_truthy :: "string option \<Rightarrow> bool" where
  "tag_truthy None = False"
| "tag_truthy (Some t) = (t \<noteq> [])"

text \<open>
  \<^verbatim>\<open>_print_Indexed\<close>. The symbols of the indices are replaced by 0 (the label of a field
  is not one of its index symbols, so the base is unchanged), then the base is looked up:
  subscripting \<open>None\<close> raises \<open>TypeError\<close>, a missing key \<open>KeyError\<close>.
\<close>

definition print_Indexed :: "indexed_accs \<Rightarrow> string \<Rightarrow> index list \<Rightarrow> error + string" where
  "print_Indexed accs b js =
     (let offsets = join '','' (map (\<lambda>j. str_int (zero_symbols j)) js) in
      case accs of
        None \<Rightarrow> Inl TypeError
      | Some m \<Rightarrow>
          (case m b of
             None \<Rightarrow> Inl KeyError
           | Some tag \<Rightarrow>
               if tag_truthy tag then Inr (b @ ''['' @ the tag @ ''('' @ offsets @ '')]'')
               else Inr (b @ ''['' @ offsets @ '']'')))"

text \<open>
  \<^verbatim>\<open>doprint\<close>: the printer dispatches on the class of the expression. The class
  \<open>Integer\<close> has its own method in the library's printer (the decimal numeral), found
  before that of its superclass \<open>Rational\<close>; \<open>Rational\<close> and the field references have
  the methods above. The methods for sums, products and powers are the library's; they
  print the arguments through the same dispatch, and \<open>generic\<close> stands for how they
  assemble the node from its printed arguments.
\<close>

fun doprint :: "(expr \<Rightarrow> string list \<Rightarrow> string) \<Rightarrow> indexed_accs \<Rightarrow> expr \<Rightarrow> error + string" where
  "doprint generic accs (Integer n) = Inr (str_int n)"
| "doprint generic accs (Rational p q) = Inr (print_Rational p q)"
| "doprint generic accs (Symbol a) = Inr a"
| "doprint generic accs (DataSet b js) = print_Indexed accs b js"
| "doprint generic accs (Add u v) =
     (case doprint generic accs u of Inl e \<Rightarrow> Inl e
      | Inr su \<Rightarrow> (case doprint generic accs v of Inl e \<Rightarrow> Inl e
                   | Inr sv \<Rightarrow> Inr (generic (Add u v) [su, sv])))"
| "doprint generic accs (Mul u v) =
     (case doprint generic accs u of Inl e \<Rightarrow> Inl e
      | Inr su \<Rightarrow> (case doprint generic accs v of Inl e \<Rightarrow> Inl e
                   | Inr sv \<Rightarrow> Inr (generic (Mul u v) [su, sv])))"
| "doprint generic accs (Pow u v) =
     (case doprint generic accs u of Inl e \<Rightarrow> Inl e
      | Inr su \<Rightarrow> (case doprint generic accs v of Inl e \<Rightarrow> Inl e
                   | Inr sv \<Rightarrow> Inr (generic (Pow u v) [su, sv])))"



text \<open>\<^verbatim>\<open>Kernel.Rational_constants\<close>\<close>

fun rcs_fold :: "expr list \<Rightarrow> pyval list \<Rightarrow> expr list" where
  "rcs_fold rcs [] = rcs"
| "rcs_fold rcs (Equality l r # eqs) = rcs_fold (set_union rcs (atoms_Rational l @ atoms_Rational r)) eqs"
| "rcs_fold rcs (v # eqs) = rcs_fold rcs eqs"

definition Rational_constants :: "'c kernel \<Rightarrow> expr list" where
  "Rational_constants k = filter (\<lambda>rc. \<not> isinstance_Integer rc) (rcs_fold [] (equations k))"


subsection \<open>Example inputs\<close>

text \<open>
  Two equations over three fields: \<open>a[x0] = b[x0+1]\<close> and \<open>c[x0] = a[x0-1] + 3/4\<close>.
\<close>

definition ex_eqs :: "pyval list" where
  "ex_eqs = [Equality (DataSet ''a'' [ISym ''x0'']) (DataSet ''b'' [IAdd (ISym ''x0'') (IInt 1)]),
             Equality (DataSet ''c'' [ISym ''x0'']) (Add (DataSet ''a'' [IAdd (ISym ''x0'') (IInt (-1))]) (Rational 3 4))]"

text \<open>
  A one-dimensional kernel over the range [0, 200) with one halo contributor on each
  side; a contributor is the pair of its two halo extents.
\<close>

definition ex_kernel :: "pyval list \<Rightarrow> (int \<times> int) kernel" where
  "ex_kernel eqs = \<lparr>block_number = 0, ndim = 1, block_name = ''block0'', computation_name = None,
     kernel_no = 0, equations = eqs, halo_ranges = [([(-1, 1)], [(-1, 1)])], ranges = [(0, 200)],
     stencil_names = [], ident = (\<lambda>l. 0)\<rparr>"

text \<open>The method \<^verbatim>\<open>get_halos\<close> of a contributor given as the pair of its extents.\<close>

definition pair_halos :: "int \<times> int \<Rightarrow> nat \<Rightarrow> int" where
  "pair_halos c side = (if side = 0 then fst c else snd c)"


subsection \<open>Registries built by the program\<close>

text \<open>
  The registries are empty when code generation starts and are written by
  \<open>update_block_datasets\<close> only; what a call has written stays, whether it returns or
  raises.
\<close>

definition empty_registries :: "'c registries" where
  "empty_registries = \<lparr>datasetbases = [], attrs = Map.empty, block_datasets = Map.empty, block_stencils = []\<rparr>"

inductive reachable :: "'c registries \<Rightarrow> bool" where
  reachable_empty: "reachable empty_registries"
| reachable_update: "reachable s \<Longrightarrow> update_block_datasets k b s = (e, k', s') \<Longrightarrow> reachable s'"

text \<open>
  Every entry of \<open>block_datasets\<close> is stored under the label of its object, has its
  attributes set, and has an equal object in \<open>datasetbases\<close>.
\<close>

definition registry_inv :: "'c registries \<Rightarrow> bool" where
  "registry_inv s \<longleftrightarrow>
     (\<forall>n obj. block_datasets s n = Some obj \<longrightarrow>
        fst obj = n \<and> n \<in> fst ` set (datasetbases s) \<and> attrs s obj \<noteq> None)"

text \<open>A block of shape (202,) and the same block with shape (100,).\<close>

definition ex_block :: "(int \<times> int) block" where
  "ex_block = \<lparr>blocknumber = 0, block_ndim = 1, blockname = ''block0'', shape = [202],
                all_scheme_halos = [(-1, 1)]\<rparr>"

definition ex_block_100 :: "(int \<times> int) block" where
  "ex_block_100 = ex_block\<lparr>shape := [100]\<rparr>"

text \<open>The registries after the example kernel has been finalised on the block of shape (202,).\<close>

definition ex_registries :: "(int \<times> int) registries" where
  "ex_registries = snd (snd (update_block_datasets (ex_kernel ex_eqs) ex_block empty_registries))"



section \<open>Properties\<close>

subsection \<open>Field sets and classification\<close>

lemma set_set_union: "set (set_union s t) = set s \<union> set t"
  by (auto simp: set_union_def)

lemma distinct_set_union: "distinct s \<Longrightarrow> distinct (set_union s t)"
  by (auto simp: set_union_def)

lemma set_lhs_fold:
  "set (lhs_fold acc eqs) = set acc \<union> (\<Union>v \<in> set eqs. case v of Equality l r \<Rightarrow> set (atoms_DataSetBase l) | _ \<Rightarrow> {})"
  by (induction acc eqs rule: lhs_fold.induct) (auto simp: set_set_union)

lemma set_rhs_fold:
  "set (rhs_fold acc eqs) = set acc \<union> (\<Union>v \<in> set eqs. case v of Equality l r \<Rightarrow> set (atoms_DataSetBase r) | _ \<Rightarrow> {})"
  by (induction acc eqs rule: rhs_fold.induct) (auto simp: set_set_union)

lemma referenced_fields_eq:
  "referenced_fields eqs =
     (\<Union>v \<in> set eqs. case v of Equality l r \<Rightarrow> set (atoms_DataSetBase l) \<union> set (atoms_DataSetBase r) | _ \<Rightarrow> {})"
  by (induction eqs rule: referenced_fields.induct) auto

lemma referenced_fields_lhs_rhs:
  "referenced_fields (equations k) = set (lhs_datasets k) \<union> set (rhs_datasets k)"
  unfolding lhs_datasets_def rhs_datasets_def set_lhs_fold set_rhs_fold referenced_fields_eq
  by (auto split: pyval.splits)

lemma distinct_lhs_fold: "distinct acc \<Longrightarrow> distinct (lhs_fold acc eqs)"
  by (induction acc eqs rule: lhs_fold.induct) (auto simp: distinct_set_union)

lemma distinct_rhs_fold: "distinct acc \<Longrightarrow> distinct (rhs_fold acc eqs)"
  by (induction acc eqs rule: rhs_fold.induct) (auto simp: distinct_set_union)

lemma ex_classify: "classify (ex_kernel ex_eqs) = ([''b''], [''c''], [''a''])"
  by (simp add: classify_def ex_kernel_def ex_eqs_def lhs_datasets_def rhs_datasets_def
      set_union_def set_intersection_def set_difference_def)

text \<open>
  C1. For every kernel the classifier takes \<open>inout\<close> as the intersection of the
  left-hand and the right-hand field sets, \<open>in\<close> as the right-hand set without
  \<open>inout\<close> and \<open>out\<close> as the left-hand set without \<open>inout\<close>; the three are
  pairwise disjoint, their union is the set of all fields the equations reference, and a
  field on the left of one equation and on the right of another is \<open>inout\<close>.
\<close>

theorem classify_partition:
  "classify k = (ins, outs, inouts) \<Longrightarrow>
     set inouts = set (lhs_datasets k) \<inter> set (rhs_datasets k)
   \<and> set ins = set (rhs_datasets k) - set inouts
   \<and> set outs = set (lhs_datasets k) - set inouts
   \<and> set ins \<inter> set outs = {} \<and> set ins \<inter> set inouts = {} \<and> set outs \<inter> set inouts = {}
   \<and> set ins \<union> set outs \<union> set inouts = referenced_fields (equations k)
   \<and> (\<forall>f l r l' r'. Equality l r \<in> set (equations k) \<and> f \<in> set (atoms_DataSetBase l)
          \<and> Equality l' r' \<in> set (equations k) \<and> f \<in> set (atoms_DataSetBase r')
        \<longrightarrow> f \<in> set inouts \<and> f \<notin> set ins \<and> f \<notin> set outs)"
proof -
  assume a: "classify k = (ins, outs, inouts)"
  from a have io: "inouts = set_intersection (rhs_datasets k) (lhs_datasets k)"
    and i: "ins = set_difference (rhs_datasets k) inouts"
    and out: "outs = set_difference (lhs_datasets k) inouts"
    by (auto simp: classify_def Let_def)
  have c1: "set inouts = set (lhs_datasets k) \<inter> set (rhs_datasets k)"
    by (auto simp: io set_intersection_def)
  have c2: "set ins = set (rhs_datasets k) - set inouts"
    by (auto simp: i set_difference_def)
  have c3: "set outs = set (lhs_datasets k) - set inouts"
    by (auto simp: out set_difference_def)
  have c4: "set ins \<union> set outs \<union> set inouts = referenced_fields (equations k)"
    using c1 c2 c3 by (auto simp: referenced_fields_lhs_rhs)
  have c5: "f \<in> set inouts \<and> f \<notin> set ins \<and> f \<notin> set outs"
    if "Equality l r \<in> set (equations k)" "f \<in> set (atoms_DataSetBase l)"
      "Equality l' r' \<in> set (equations k)" "f \<in> set (atoms_DataSetBase r')" for f l r l' r'
  proof -
    from that have "f \<in> set (lhs_datasets k)" "f \<in> set (rhs_datasets k)"
      unfolding lhs_datasets_def rhs_datasets_def set_lhs_fold set_rhs_fold by force+
    then show ?thesis using c1 c2 c3 by blast
  qed
  show ?thesis using c1 c2 c3 c4 c5 by blast
qed

theorem classify_partition_witness:
  "classify (ex_kernel ex_eqs) = ([''b''], [''c''], [''a''])
   \<and> set [''b''] \<union> set [''c''] \<union> set [''a''] = referenced_fields (equations (ex_kernel ex_eqs))
   \<and> set [''b''] \<inter> set [''c''] = {}
   \<and> Equality (DataSet ''a'' [ISym ''x0'']) (DataSet ''b'' [IAdd (ISym ''x0'') (IInt 1)]) \<in> set (equations (ex_kernel ex_eqs))
   \<and> ''a'' \<in> set (rhs_datasets (ex_kernel ex_eqs))
   \<and> ''a'' \<in> set [''a''] \<and> ''a'' \<notin> set [''b''] \<and> ''a'' \<notin> set [''c'']"
proof -
  note w = classify_partition [OF ex_classify]
  have m: "Equality (DataSet ''a'' [ISym ''x0'']) (DataSet ''b'' [IAdd (ISym ''x0'') (IInt 1)]) \<in> set (equations (ex_kernel ex_eqs))"
    by (simp add: ex_kernel_def ex_eqs_def)
  from w have r: "set [''b''] \<union> set [''c''] \<union> set [''a''] = referenced_fields (equations (ex_kernel ex_eqs))"
    by (elim conjE)
  from w have d: "set [''b''] \<inter> set [''c''] = {}"
    by (elim conjE)
  from w have "set [''a''] = set (lhs_datasets (ex_kernel ex_eqs)) \<inter> set (rhs_datasets (ex_kernel ex_eqs))"
    by (elim conjE)
  then have a: "''a'' \<in> set (rhs_datasets (ex_kernel ex_eqs))"
    by (metis IntD2 list.set_intros(1))
  show ?thesis by (intro conjI ex_classify m r d a) simp_all
qed

subsection \<open>Adding equations\<close>





subsection \<open>Iteration range\<close>

lemma py_min_Min: "xs \<noteq> [] \<Longrightarrow> py_min xs = Min (set xs)"
  by (cases xs) (simp_all add: Min.set_eq_fold [symmetric])

lemma py_max_Max: "xs \<noteq> [] \<Longrightarrow> py_max xs = Max (set xs)"
  by (cases xs) (simp_all add: Max.set_eq_fold [symmetric])

lemma halo_m_nth:
  "d < length halos \<Longrightarrow>
   fst (get_min_max_halo_values gh halos) ! d =
     (if fst (halos ! d) = [] then 0 else Min ((\<lambda>c. gh c 0) ` set (fst (halos ! d))))"
  by (simp add: get_min_max_halo_values_def py_min_Min)

lemma halo_p_nth:
  "d < length halos \<Longrightarrow>
   snd (get_min_max_halo_values gh halos) ! d =
     (if snd (halos ! d) = [] then 0 else Max ((\<lambda>c. gh c 1) ` set (snd (halos ! d))))"
  by (simp add: get_min_max_halo_values_def py_max_Max)

text \<open>
  C3. For a finalised kernel (a range and a pair of halo sets for each of its dimensions)
  the range emitted in dimension \<open>d\<close> is the base range with the lower bound increased
  by the minimum of \<open>get_halos(0)\<close> over the negative-side contributors and the upper
  bound increased by the maximum of \<open>get_halos(1)\<close> over the positive-side
  contributors, each taken as 0 for an empty set. The range [0, 200) with one contributor
  of extent 1 on each side gives [-1, 201).
\<close>

theorem range_of_eval_halo:
  "ndim k \<le> length (ranges k) \<Longrightarrow> ndim k \<le> length (halo_ranges k) \<Longrightarrow>
   \<exists>rs. range_of_eval gh k = Inr rs \<and> length rs = ndim k \<and>
     (\<forall>d < ndim k.
        fst (rs ! d) = fst (ranges k ! d)
          + (if fst (halo_ranges k ! d) = [] then 0
             else Min ((\<lambda>c. gh c 0) ` set (fst (halo_ranges k ! d))))
      \<and> snd (rs ! d) = snd (ranges k ! d)
          + (if snd (halo_ranges k ! d) = [] then 0
             else Max ((\<lambda>c. gh c 1) ` set (snd (halo_ranges k ! d)))))"
proof -
  assume a: "ndim k \<le> length (ranges k)" and b: "ndim k \<le> length (halo_ranges k)"
  obtain hm hp where h: "get_min_max_halo_values gh (halo_ranges k) = (hm, hp)"
    by (cases "get_min_max_halo_values gh (halo_ranges k)")
  let ?rs = "map (\<lambda>d. (fst (ranges k ! d) + hm ! d, snd (ranges k ! d) + hp ! d)) [0..<ndim k]"
  have r: "range_of_eval gh k = Inr ?rs"
    using a b h by (simp add: range_of_eval_def)
  have m: "hm ! d = (if fst (halo_ranges k ! d) = [] then 0
             else Min ((\<lambda>c. gh c 0) ` set (fst (halo_ranges k ! d))))" if "d < ndim k" for d
    using halo_m_nth [of d "halo_ranges k" gh] that b h by simp
  have p: "hp ! d = (if snd (halo_ranges k ! d) = [] then 0
             else Max ((\<lambda>c. gh c 1) ` set (snd (halo_ranges k ! d))))" if "d < ndim k" for d
    using halo_p_nth [of d "halo_ranges k" gh] that b h by simp
  show ?thesis
    using r m p by simp
qed

lemma ex_iter_name: "iter_name_code pair_halos (ex_kernel ex_eqs) = Inr ''int iteration_range_0[] = {-1, 201};''"
  by (simp add: iter_name_code_def range_of_eval_def get_min_max_halo_values_def ex_kernel_def
      pair_halos_def str_int_def str_nat.simps digit_char_def)

theorem range_of_eval_halo_witness:
  "ndim (ex_kernel ex_eqs) \<le> length (ranges (ex_kernel ex_eqs))
   \<and> ndim (ex_kernel ex_eqs) \<le> length (halo_ranges (ex_kernel ex_eqs))
   \<and> range_of_eval pair_halos (ex_kernel ex_eqs) = Inr [(-1, 201)]
   \<and> iter_name_code pair_halos (ex_kernel ex_eqs) = Inr ''int iteration_range_0[] = {-1, 201};''"
proof -
  have a: "ndim (ex_kernel ex_eqs) \<le> length (ranges (ex_kernel ex_eqs))"
    and b: "ndim (ex_kernel ex_eqs) \<le> length (halo_ranges (ex_kernel ex_eqs))"
    by (simp_all add: ex_kernel_def)
  from range_of_eval_halo [OF a b, of pair_halos]
  obtain rs where r: "range_of_eval pair_halos (ex_kernel ex_eqs) = Inr rs"
    and l: "length rs = ndim (ex_kernel ex_eqs)"
    and v: "\<forall>d < ndim (ex_kernel ex_eqs).
        fst (rs ! d) = fst (ranges (ex_kernel ex_eqs) ! d)
          + (if fst (halo_ranges (ex_kernel ex_eqs) ! d) = [] then 0
             else Min ((\<lambda>c. pair_halos c 0) ` set (fst (halo_ranges (ex_kernel ex_eqs) ! d))))
      \<and> snd (rs ! d) = snd (ranges (ex_kernel ex_eqs) ! d)
          + (if snd (halo_ranges (ex_kernel ex_eqs) ! d) = [] then 0
             else Max ((\<lambda>c. pair_halos c 1) ` set (snd (halo_ranges (ex_kernel ex_eqs) ! d))))"
    by blast
  from l have l1: "length rs = 1" by (simp add: ex_kernel_def)
  from v have "fst (rs ! 0) = -1 \<and> snd (rs ! 0) = 201"
    by (simp add: ex_kernel_def pair_halos_def)
  with l1 have "rs = [(-1, 201)]"
    by (cases rs) (auto simp: prod_eq_iff)
  with r have c: "range_of_eval pair_halos (ex_kernel ex_eqs) = Inr [(-1, 201)]" by simp
  show ?thesis by (intro conjI a b c ex_iter_name)
qed

subsection \<open>Rational literals\<close>

lemma digit_char_mem: "d < 10 \<Longrightarrow> digit_char d \<in> set ''0123456789''"
  unfolding digit_char_def by (rule nth_mem) simp

lemma str_nat_digits: "set (str_nat n) \<subseteq> set ''0123456789''"
proof (induction n rule: str_nat.induct)
  case (1 n)
  show ?case
  proof (cases "n < 10")
    case True
    then show ?thesis
      using digit_char_mem [of n] by (subst str_nat.simps) simp
  next
    case False
    have "n mod 10 < 10" by simp
    then have "digit_char (n mod 10) \<in> set ''0123456789''" by (rule digit_char_mem)
    with False "1.IH" show ?thesis
      by (subst str_nat.simps) simp
  qed
qed

lemma no_slash_str_int: "CHR ''/'' \<notin> set (str_int n)"
proof -
  have "CHR ''/'' \<notin> set ''0123456789''" by simp
  then have "CHR ''/'' \<notin> set (str_nat m)" for m
    using str_nat_digits [of m] by blast
  then show ?thesis by (simp add: str_int_def)
qed

lemma set_rcs_fold:
  "set (rcs_fold acc eqs) = set acc \<union> (\<Union>v \<in> set eqs. case v of Equality l r \<Rightarrow> set (atoms_Rational l) \<union> set (atoms_Rational r) | _ \<Rightarrow> {})"
  by (induction acc eqs rule: rcs_fold.induct) (auto simp: set_set_union)

lemma atoms_Rational_numbers: "rc \<in> set (atoms_Rational e) \<Longrightarrow> isinstance_Rational rc"
  by (induction e) auto

lemma Rational_constants_proper:
  assumes "rc \<in> set (Rational_constants k)"
  shows "\<exists>p q. rc = Rational p q"
proof -
  from assms have n: "\<not> isinstance_Integer rc" and m: "rc \<in> set (rcs_fold [] (equations k))"
    by (simp_all add: Rational_constants_def)
  from m obtain v where "rc \<in> (case v of Equality l r \<Rightarrow> set (atoms_Rational l) \<union> set (atoms_Rational r) | _ \<Rightarrow> {})"
    unfolding set_rcs_fold by auto
  then have "isinstance_Rational rc"
    by (cases v) (auto dest: atoms_Rational_numbers)
  with n show ?thesis by (cases rc) simp_all
qed

text \<open>
  C6. The printer renders a \<open>Rational\<close> object with fields \<open>p\<close> and \<open>q\<close> as the
  text \<open>p.0/q.0\<close>; an \<open>Integer\<close> is printed as its numeral, which has no division
  sign; and the rational constants collected for a kernel are exactly the non-integer
  numbers of its equations, so they contain no \<open>Integer\<close>.
\<close>

theorem rational_literal:
  "doprint generic accs (Rational p q) = Inr (str_int p @ ''.0/'' @ str_int q @ ''.0'')
   \<and> doprint generic accs (Integer n) = Inr (str_int n)
   \<and> CHR ''/'' \<notin> set (str_int n)
   \<and> (\<forall>rc \<in> set (Rational_constants k). \<not> isinstance_Integer rc \<and> (\<exists>p q. rc = Rational p q))
   \<and> (\<forall>l r p q. Equality l r \<in> set (equations k) \<and> Rational p q \<in> set (atoms_Rational l @ atoms_Rational r)
        \<longrightarrow> Rational p q \<in> set (Rational_constants k))"
proof -
  have 1: "\<forall>rc \<in> set (Rational_constants k). \<not> isinstance_Integer rc \<and> (\<exists>p q. rc = Rational p q)"
    using Rational_constants_proper by (auto simp: Rational_constants_def)
  have 2: "\<forall>l r p q. Equality l r \<in> set (equations k) \<and> Rational p q \<in> set (atoms_Rational l @ atoms_Rational r)
        \<longrightarrow> Rational p q \<in> set (Rational_constants k)"
    unfolding Rational_constants_def set_filter set_rcs_fold by force
  show ?thesis using 1 2 by (simp add: print_Rational_def no_slash_str_int)
qed

lemma ex_Rational_constants: "Rational_constants (ex_kernel ex_eqs) = [Rational 3 4]"
  by (simp add: Rational_constants_def ex_kernel_def ex_eqs_def set_union_def)

theorem rational_literal_witness:
  "doprint (\<lambda>e. concat) None (Rational 3 4) = Inr ''3.0/4.0''
   \<and> doprint (\<lambda>e. concat) None (Integer 4) = Inr ''4''
   \<and> Rational_constants (ex_kernel ex_eqs) = [Rational 3 4]
   \<and> Rational 3 4 \<in> set (Rational_constants (ex_kernel ex_eqs))
   \<and> \<not> isinstance_Integer (Rational 3 4)
   \<and> Integer 1 \<notin> set (Rational_constants (ex_kernel ex_eqs))"
proof -
  note w = rational_literal [of "\<lambda>e. concat" None 3 4 4 "ex_kernel ex_eqs"]
  have s3: "str_int 3 = ''3''" and s4: "str_int 4 = ''4''"
    by (simp_all add: str_int_def str_nat.simps digit_char_def)
  from w have "doprint (\<lambda>e. concat) None (Rational 3 4) = Inr (str_int 3 @ ''.0/'' @ str_int 4 @ ''.0'')"
    by (elim conjE)
  then have a: "doprint (\<lambda>e. concat) None (Rational 3 4) = Inr ''3.0/4.0''"
    unfolding s3 s4 by simp
  from w have "doprint (\<lambda>e. concat) None (Integer 4) = Inr (str_int 4)"
    by (elim conjE)
  then have b: "doprint (\<lambda>e. concat) None (Integer 4) = Inr ''4''"
    unfolding s4 .
  from w have c: "\<forall>rc \<in> set (Rational_constants (ex_kernel ex_eqs)). \<not> isinstance_Integer rc \<and> (\<exists>p q. rc = Rational p q)"
    by (elim conjE)
  have d: "Rational 3 4 \<in> set (Rational_constants (ex_kernel ex_eqs))"
    by (simp add: ex_Rational_constants)
  from c d have e: "\<not> isinstance_Integer (Rational 3 4)" by blast
  from c have f: "Integer 1 \<notin> set (Rational_constants (ex_kernel ex_eqs))"
    by (metis isinstance_Integer.simps(1))
  show ?thesis by (intro conjI a b ex_Rational_constants d e f)
qed

subsection \<open>Printing a field reference\<close>





subsection \<open>Ordering of stencil offsets\<close>

lemma insort_key_agree:
  "f x = g x \<Longrightarrow> \<forall>y \<in> set ys. f y = g y \<Longrightarrow> insort_key f x ys = insort_key g x ys"
  by (induction ys) auto

lemma sort_key_agree:
  "\<forall>x \<in> set xs. f x = g x \<Longrightarrow> sort_key f xs = sort_key g xs"
proof (induction xs)
  case Nil
  show ?case by simp
next
  case (Cons x xs)
  from Cons.prems have hx: "f x = g x" and hxs: "\<forall>y \<in> set xs. f y = g y"
    by (simp_all only: list.set ball_simps insert_iff) blast+
  from hxs have ih: "sort_key f xs = sort_key g xs" by (rule Cons.IH)
  have "\<forall>y \<in> set (sort_key g xs). f y = g y"
    using hxs by (simp only: set_sort)
  with hx have "insort_key f x (sort_key g xs) = insort_key g x (sort_key g xs)"
    by (rule insort_key_agree)
  then show ?case
    by (simp only: sort_key_simps ih)
qed

lemma two_keys_head:
  fixes f :: "'b \<Rightarrow> 'a::linorder" and g :: "'b \<Rightarrow> 'a list"
  assumes "sorted (map g (filter (\<lambda>x. f x = f y) (y # ys)))" "z \<in> set ys" "f z = f y"
  shows "g y \<le> g z"
  using assms by auto

lemma sorted_two_keys:
  fixes f :: "'b \<Rightarrow> 'a::linorder" and g :: "'b \<Rightarrow> 'a list"
  shows "sorted (map f ys) \<Longrightarrow> \<forall>k. sorted (map g (filter (\<lambda>x. f x = k) ys))
    \<Longrightarrow> sorted (map (\<lambda>t. f t # g t) ys)"
proof (induction ys)
  case Nil
  show ?case by simp
next
  case (Cons y ys)
  from Cons.prems(1) have p1: "\<forall>z \<in> set ys. f y \<le> f z" and p2: "sorted (map f ys)"
    by simp_all
  have p3: "\<forall>k. sorted (map g (filter (\<lambda>x. f x = k) ys))"
  proof
    fix k
    from Cons.prems(2) have "sorted (map g (filter (\<lambda>x. f x = k) (y # ys)))" by blast
    then show "sorted (map g (filter (\<lambda>x. f x = k) ys))"
      by (cases "f y = k") simp_all
  qed
  have tl: "sorted (map (\<lambda>t. f t # g t) ys)"
    using p2 p3 by (rule Cons.IH)
  have hd: "\<forall>z \<in> set ys. f y # g y \<le> f z # g z"
  proof
    fix z assume z: "z \<in> set ys"
    show "f y # g y \<le> f z # g z"
    proof (cases "f z = f y")
      case True
      from Cons.prems(2) have "sorted (map g (filter (\<lambda>x. f x = f y) (y # ys)))" by blast
      then have "g y \<le> g z" using z True by (rule two_keys_head)
      with True show ?thesis by simp
    next
      case False
      with p1 z have "f y < f z" by force
      then show ?thesis by simp
    qed
  qed
  from tl hd show ?case by simp
qed


lemma sort_key_twice:
  fixes f :: "'b \<Rightarrow> 'a::linorder" and g :: "'b \<Rightarrow> 'a list"
  shows "sort_key f (sort_key g xs) = sort_key (\<lambda>t. f t # g t) xs"
proof (rule properties_for_sort_key [symmetric])
  show "mset (sort_key f (sort_key g xs)) = mset xs" by simp
next
  fix k
  have e: "(\<lambda>x. f k # g k = f x # g x) = (\<lambda>x. f x = f k \<and> g x = g k)"
    by auto
  have "filter (\<lambda>x. f x = f k \<and> g x = g k) (sort_key f (sort_key g xs))
      = filter (\<lambda>x. g x = g k) (filter (\<lambda>x. f x = f k) (sort_key f (sort_key g xs)))"
    by (simp only: filter_filter)
  also have "\<dots> = filter (\<lambda>x. g x = g k) (filter (\<lambda>x. f x = f k) (sort_key g xs))"
    by (simp only: sort_key_stable)
  also have "\<dots> = filter (\<lambda>x. f x = f k) (filter (\<lambda>x. g x = g k) (sort_key g xs))"
    by (simp only: filter_filter) (rule filter_cong, auto)
  also have "\<dots> = filter (\<lambda>x. f x = f k) (filter (\<lambda>x. g x = g k) xs)"
    by (simp only: sort_key_stable)
  also have "\<dots> = filter (\<lambda>x. f x = f k \<and> g x = g k) xs"
    by (simp only: filter_filter) (rule filter_cong, auto)
  finally show "filter (\<lambda>x. f k # g k = f x # g x) (sort_key f (sort_key g xs))
      = filter (\<lambda>x. f k # g k = f x # g x) xs"
    unfolding e .
next
  show "sorted (map (\<lambda>t. f t # g t) (sort_key f (sort_key g xs)))"
  proof (rule sorted_two_keys)
    show "sorted (map f (sort_key f (sort_key g xs)))" by simp
    show "\<forall>k. sorted (map g (filter (\<lambda>x. f x = k) (sort_key f (sort_key g xs))))"
      by (simp only: sort_key_stable) (simp add: sorted_filter)
  qed
qed

lemma sort_by_dims_from:
  fixes xs :: "'a::linorder list list"
  assumes "\<forall>t \<in> set xs. d \<le> length t" and "i \<le> d"
  shows "sort_by_dims [i..<d] (sort_key (\<lambda>t. rev (take i t)) xs) = Inr (sort_key (\<lambda>t. rev (take d t)) xs)"
  using assms(2)
proof (induction "d - i" arbitrary: i)
  case 0
  then show ?case by simp
next
  case (Suc n)
  then have lt: "i < d" by simp
  have noerr: "\<not> (\<exists>t \<in> set (sort_key (\<lambda>t. rev (take i t)) xs). length t \<le> i)"
    using assms(1) lt by auto
  have "sort_key (\<lambda>t. t ! i) (sort_key (\<lambda>t. rev (take i t)) xs)
      = sort_key (\<lambda>t. t ! i # rev (take i t)) xs"
    by (rule sort_key_twice)
  also have "\<dots> = sort_key (\<lambda>t. rev (take (Suc i) t)) xs"
  proof (rule sort_key_agree, rule ballI)
    fix t assume "t \<in> set xs"
    then have "i < length t" using assms(1) lt by force
    then show "t ! i # rev (take i t) = rev (take (Suc i) t)"
      by (simp add: take_Suc_conv_app_nth)
  qed
  finally have step: "sort_key (\<lambda>t. t ! i) (sort_key (\<lambda>t. rev (take i t)) xs)
      = sort_key (\<lambda>t. rev (take (Suc i) t)) xs" .
  have "sort_by_dims [i..<d] (sort_key (\<lambda>t. rev (take i t)) xs)
      = sort_by_dims [Suc i..<d] (sort_key (\<lambda>t. t ! i) (sort_key (\<lambda>t. rev (take i t)) xs))"
    using lt noerr by (simp add: upt_conv_Cons)
  also have "\<dots> = Inr (sort_key (\<lambda>t. rev (take d t)) xs)"
    unfolding step using Suc.hyps lt by (intro Suc.hyps(1)) simp_all
  finally show ?case .
qed

lemma sort_by_dims_all:
  fixes xs :: "'a::linorder list list"
  assumes "\<forall>t \<in> set xs. length t = d"
  shows "sort_by_dims [0..<d] xs = Inr (sort_key rev xs)"
proof -
  have "sort_by_dims [0..<d] (sort_key (\<lambda>t. rev (take 0 t)) xs) = Inr (sort_key (\<lambda>t. rev (take d t)) xs)"
    using assms by (intro sort_by_dims_from) simp_all
  moreover have "sort_key (\<lambda>t. rev (take 0 t)) xs = xs"
    by (simp add: sort_key_const)
  moreover have "sort_key (\<lambda>t. rev (take d t)) xs = sort_key rev xs"
    using assms by (intro sort_key_agree) simp
  ultimately show ?thesis by simp
qed

lemma sort_stencil_indices_rev:
  fixes xs :: "'a::linorder list list"
  assumes "xs \<noteq> []" and "\<forall>t \<in> set xs. length t = length (hd xs)"
  shows "sort_stencil_indices xs = Inr (concat (sort_key rev xs))"
proof (cases xs)
  case Nil
  with assms show ?thesis by simp
next
  case (Cons x ys)
  show ?thesis
  proof (cases "length x > 1")
    case True
    have "sort_by_dims [0..<length x] xs = Inr (sort_key rev xs)"
      using assms(2) Cons by (intro sort_by_dims_all) simp
    with True Cons show ?thesis by (simp add: sort_stencil_indices_def)
  next
    case False
    have "sort_key (\<lambda>t. t) xs = sort_key rev xs"
    proof (rule sort_key_agree, rule ballI)
      fix t assume "t \<in> set xs"
      then have "length t \<le> 1" using assms(2) Cons False by auto
      then show "t = rev t" by (cases t) simp_all
    qed
    with False Cons show ?thesis by (simp add: sort_stencil_indices_def)
  qed
qed

text \<open>
  C5 (as amended). For a non-empty list of offset tuples of one dimension, the repeated
  stable sorts of \<open>OPSC.sort_stencil_indices\<close> (by dimension 0, then 1, and so on)
  leave the tuples in the order of one stable sort by the reversed tuple: the last
  dimension decides first and dimension 0 last. \<open>StencilObject.sort_stencil_indices\<close>
  orders lexicographically from dimension 0. The two agree when the dimension is at
  most 1.
\<close>

theorem sort_stencil_indices_order:
  fixes xs :: "int list list"
  shows "xs \<noteq> [] \<Longrightarrow> \<forall>t \<in> set xs. length t = length (hd xs) \<Longrightarrow>
     sort_stencil_indices xs = Inr (concat (sort_key rev xs))
   \<and> StencilObject_sort_stencil_indices xs = Inr (sort xs)
   \<and> (length (hd xs) \<le> 1 \<longrightarrow> sort_stencil_indices xs = Inr (concat (sort xs)))"
proof -
  assume a: "xs \<noteq> []" and b: "\<forall>t \<in> set xs. length t = length (hd xs)"
  from a obtain x ys where c: "xs = x # ys" by (cases xs) blast+
  define d where "d = length x"
  from b c have e: "\<forall>t \<in> set xs. length t = d"
    unfolding d_def by (simp only: list.sel)
  have 1: "sort_stencil_indices xs = Inr (concat (sort_key rev xs))"
    using a b by (rule sort_stencil_indices_rev)
  have "\<forall>t \<in> set xs. take d t = t"
    using e by (metis order_refl take_all)
  then have k: "sort_key (take d) xs = sort_key (\<lambda>t. t) xs"
    by (rule sort_key_agree)
  have n: "\<not> (\<exists>t \<in> set xs. length t < d)"
    using e by (metis less_irrefl)
  have "StencilObject_sort_stencil_indices (x # ys) = Inr (sort_key (take d) (x # ys))"
    using n unfolding c d_def StencilObject_sort_stencil_indices_def
    by (simp only: list.case if_False)
  then have 2: "StencilObject_sort_stencil_indices xs = Inr (sort xs)"
    using k unfolding c by (simp only:)
  have 3: "length (hd xs) \<le> 1 \<longrightarrow> sort_stencil_indices xs = Inr (concat (sort xs))"
    unfolding c by (simp add: sort_stencil_indices_def)
  show ?thesis by (intro conjI 1 2 3)
qed

text \<open>
  The claim as stated fails for the two-dimensional offsets (0, 1) and (1, 0): the
  repeated sorts put (1, 0) first, the lexicographic key (0, 1).
\<close>

theorem sort_stencil_indices_counterexample:
  "sort_stencil_indices [[0, 1], [1, 0 :: int]] = Inr [1, 0, 0, 1]
   \<and> StencilObject_sort_stencil_indices [[0, 1], [1, 0 :: int]] = Inr [[0, 1], [1, 0]]
   \<and> [1, 0, 0, 1] \<noteq> concat [[0, 1], [1, 0 :: int]]"
  by (simp add: sort_stencil_indices_def StencilObject_sort_stencil_indices_def upt_conv_Cons)

theorem sort_stencil_indices_order_witness:
  "[[0, 1], [1, 0 :: int]] \<noteq> []
   \<and> length [0, 1 :: int] = length (hd [[0, 1], [1, 0 :: int]])
   \<and> length [1, 0 :: int] = length (hd [[0, 1], [1, 0 :: int]])
   \<and> sort_stencil_indices [[0, 1], [1, 0 :: int]] = Inr (concat [[1, 0], [0, 1]])
   \<and> StencilObject_sort_stencil_indices [[0, 1], [1, 0 :: int]] = Inr [[0, 1], [1, 0]]"
proof -
  let ?xs = "[[0, 1], [1, 0 :: int]]"
  have a: "?xs \<noteq> []" by simp
  have b: "\<forall>t \<in> set ?xs. length t = length (hd ?xs)" by simp
  note w = sort_stencil_indices_order [OF a b]
  have r: "sort_key rev ?xs = [[1, 0], [0, 1]]" by simp
  have s: "sort ?xs = [[0, 1], [1, 0]]" by simp
  from w have 1: "sort_stencil_indices ?xs = Inr (concat [[1, 0], [0, 1]])"
    unfolding r by (elim conjE)
  from w have 2: "StencilObject_sort_stencil_indices ?xs = Inr [[0, 1], [1, 0]]"
    unfolding s by (elim conjE)
  show ?thesis by (intro conjI a 1 2) simp_all
qed

subsection \<open>Relative stencils\<close>














subsection \<open>Registration of fields\<close>

lemma register_dataset_inv:
  assumes "registry_inv s" and "register_dataset b s d = (e, s')"
  shows "registry_inv s'"
proof -
  define s1 where "s1 = (if fst d \<in> fst ` set (datasetbases s) then s
                else s\<lparr>datasetbases := datasetbases s @ [d], attrs := (attrs s)(d \<mapsto> block_attrs b)\<rparr>)"
  have i1: "registry_inv s1"
    using assms(1) unfolding s1_def registry_inv_def by auto
  have l1: "fst d \<in> fst ` set (datasetbases s1)"
    unfolding s1_def by auto
  have r: "register_dataset b s d =
     (case block_datasets s1 (fst d) of
           Some dset \<Rightarrow>
             (case attrs s1 dset of
                None \<Rightarrow> (Some AttributeError, s1)
              | Some a \<Rightarrow>
                  if blocknumber b \<noteq> a_block_number a then (Some (ValueError ''Block number error''), s1)
                  else if shape b \<noteq> a_size a then (Some (ValueError ''Shape error''), s1)
                  else (None, s1))
         | None \<Rightarrow>
             (None, s1\<lparr>attrs := (attrs s1)(d \<mapsto> block_attrs b),
                       block_datasets := (block_datasets s1)(fst d \<mapsto> d)\<rparr>))"
    unfolding register_dataset_def s1_def Let_def by (rule refl)
  show ?thesis
  proof (cases "block_datasets s1 (fst d)")
    case None
    with r assms(2) have "s' = s1\<lparr>attrs := (attrs s1)(d \<mapsto> block_attrs b),
                       block_datasets := (block_datasets s1)(fst d \<mapsto> d)\<rparr>"
      by simp
    then show ?thesis using i1 l1 unfolding registry_inv_def by (auto intro: rev_image_eqI)
  next
    case (Some dset)
    with r assms(2) have "s' = s1"
      by (auto split: option.splits if_splits)
    with i1 show ?thesis by simp
  qed
qed

lemma register_dataset_keeps:
  assumes "registry_inv s" and "block_datasets s n = Some obj" and "attrs s obj = Some a"
    and "register_dataset b s d = (e, s')"
  shows "block_datasets s' n = Some obj \<and> attrs s' obj = Some a"
proof -
  from assms(1,2) have on: "fst obj = n" and nl: "n \<in> fst ` set (datasetbases s)"
    unfolding registry_inv_def by blast+
  show ?thesis
  proof (cases "fst d = n")
    case True
    with nl assms(2,3,4) have "s' = s"
      by (auto simp: register_dataset_def Let_def split: if_splits)
    with assms(2,3) show ?thesis by simp
  next
    case False
    then have "d \<noteq> obj" using on by auto
    with False assms(2,3,4) show ?thesis
      by (auto simp: register_dataset_def Let_def split: if_splits option.splits)
  qed
qed

lemma register_dataset_mismatch:
  assumes "registry_inv s" and "block_datasets s n = Some obj" and "attrs s obj = Some a"
    and "blocknumber b \<noteq> a_block_number a \<or> shape b \<noteq> a_size a" and "fst d = n"
  shows "\<exists>msg. register_dataset b s d = (Some (ValueError msg), s)"
proof -
  from assms(1,2) have "n \<in> fst ` set (datasetbases s)"
    unfolding registry_inv_def by blast
  with assms(2,3,4,5) show ?thesis
    by (auto simp: register_dataset_def Let_def)
qed

lemma register_datasets_mismatch:
  assumes "registry_inv s" and "block_datasets s n = Some obj" and "attrs s obj = Some a"
    and "blocknumber b \<noteq> a_block_number a \<or> shape b \<noteq> a_size a" and "n \<in> fst ` set ds"
  shows "\<exists>e s'. register_datasets b s ds = (Some e, s')
           \<and> block_datasets s' n = Some obj \<and> attrs s' obj = Some a \<and> registry_inv s'"
  using assms
proof (induction ds arbitrary: s)
  case Nil
  then show ?case by simp
next
  case (Cons d ds)
  obtain e1 s1 where r: "register_dataset b s d = (e1, s1)"
    by (cases "register_dataset b s d")
  have i1: "registry_inv s1" using Cons.prems(1) r by (rule register_dataset_inv)
  have k1: "block_datasets s1 n = Some obj \<and> attrs s1 obj = Some a"
    using Cons.prems(1,2,3) r by (rule register_dataset_keeps)
  show ?case
  proof (cases e1)
    case (Some e)
    with r i1 k1 show ?thesis by simp
  next
    case None
    have "fst d \<noteq> n"
    proof
      assume "fst d = n"
      with Cons.prems(1,2,3,4) obtain msg where "register_dataset b s d = (Some (ValueError msg), s)"
        using register_dataset_mismatch by blast
      with r None show False by simp
    qed
    with Cons.prems(5) have "n \<in> fst ` set ds" by auto
    with i1 k1 Cons.prems(4)
    have "\<exists>e s'. register_datasets b s1 ds = (Some e, s')
           \<and> block_datasets s' n = Some obj \<and> attrs s' obj = Some a \<and> registry_inv s'"
      by (intro Cons.IH) simp_all
    with r None show ?thesis by simp
  qed
qed

lemma register_datasets_inv:
  "registry_inv s \<Longrightarrow> register_datasets b s ds = (e, s') \<Longrightarrow> registry_inv s'"
proof (induction ds arbitrary: s)
  case Nil
  then show ?case by simp
next
  case (Cons d ds)
  obtain e1 s1 where r: "register_dataset b s d = (e1, s1)"
    by (cases "register_dataset b s d")
  have i1: "registry_inv s1" using Cons.prems(1) r by (rule register_dataset_inv)
  show ?case
  proof (cases e1)
    case (Some e)
    with r Cons.prems(2) i1 show ?thesis by simp
  next
    case None
    with r Cons.prems(2) have "register_datasets b s1 ds = (e, s')" by simp
    with i1 show ?thesis by (rule Cons.IH)
  qed
qed

lemma register_datasets_error_kind:
  "registry_inv s \<Longrightarrow> register_datasets b s ds = (Some e, s') \<Longrightarrow> \<exists>msg. e = ValueError msg"
proof (induction ds arbitrary: s)
  case Nil
  then show ?case by simp
next
  case (Cons d ds)
  obtain e1 s1 where r: "register_dataset b s d = (e1, s1)"
    by (cases "register_dataset b s d")
  have i1: "registry_inv s1" using Cons.prems(1) r by (rule register_dataset_inv)
  show ?case
  proof (cases e1)
    case (Some e0)
    with r Cons.prems(2) have ee: "e = e0" by simp
    from Cons.prems(1) have "\<And>n obj. block_datasets s n = Some obj \<Longrightarrow> attrs s obj \<noteq> None"
      unfolding registry_inv_def by blast
    with r Some have "\<exists>msg. e0 = ValueError msg"
      by (fastforce simp: register_dataset_def Let_def split: option.splits if_splits)
    with ee show ?thesis by simp
  next
    case None
    with r Cons.prems(2) have "register_datasets b s1 ds = (Some e, s')" by simp
    with i1 show ?thesis by (rule Cons.IH)
  qed
qed

lemma registry_inv_block_stencils: "registry_inv (s\<lparr>block_stencils := bs\<rparr>) = registry_inv s"
  by (simp add: registry_inv_def)

lemma update_block_datasets_inv:
  assumes "registry_inv s" and "update_block_datasets k b s = (e, k', s')"
  shows "registry_inv s'"
proof -
  obtain e1 s1 where r: "register_datasets b s (dsets (k\<lparr>stencil_names := []\<rparr>)) = (e1, s1)"
    by (cases "register_datasets b s (dsets (k\<lparr>stencil_names := []\<rparr>))")
  have i1: "registry_inv s1" using assms(1) r by (rule register_datasets_inv)
  from assms(2) r have "s' = s1 \<or> (\<exists>bs. s' = s1\<lparr>block_stencils := bs\<rparr>)"
    by (auto simp: update_block_datasets_def Let_def split: option.splits sum.splits prod.splits)
  with i1 show ?thesis by (auto simp: registry_inv_block_stencils)
qed

lemma reachable_inv: "reachable s \<Longrightarrow> registry_inv s"
proof (induction rule: reachable.induct)
  case reachable_empty
  show ?case by (simp add: registry_inv_def empty_registries_def)
next
  case (reachable_update s k b e k' s')
  then show ?case using update_block_datasets_inv by blast
qed

lemma set_dsets: "fst ` set (dsets k) = set (lhs_datasets k) \<union> set (rhs_datasets k)"
  by (simp add: dsets_def set_set_union image_image)

lemma dsets_stencil_names: "dsets (k\<lparr>stencil_names := ns\<rparr>) = dsets k"
  by (simp add: dsets_def lhs_datasets_def rhs_datasets_def)

text \<open>
  C8. In registries built by the program, when a field is registered under its name and
  a kernel that references this name is finalised for a block whose number or shape
  differs from the registered one, the call raises a value error, and the registered
  entry is the same object with the same attributes (block number, shape, halo record)
  afterwards.
\<close>

theorem registration_mismatch:
  "reachable s \<Longrightarrow> block_datasets s n = Some obj \<Longrightarrow> attrs s obj = Some a
   \<Longrightarrow> n \<in> set (lhs_datasets k) \<union> set (rhs_datasets k)
   \<Longrightarrow> blocknumber b \<noteq> a_block_number a \<or> shape b \<noteq> a_size a
   \<Longrightarrow> \<exists>msg k' s'. update_block_datasets k b s = (Some (ValueError msg), k', s')
         \<and> block_datasets s' n = Some obj \<and> attrs s' obj = Some a"
proof -
  assume re: "reachable s" and bd: "block_datasets s n = Some obj" and at: "attrs s obj = Some a"
    and n: "n \<in> set (lhs_datasets k) \<union> set (rhs_datasets k)"
    and mm: "blocknumber b \<noteq> a_block_number a \<or> shape b \<noteq> a_size a"
  from re have inv: "registry_inv s" by (rule reachable_inv)
  let ?ds = "dsets (k\<lparr>stencil_names := []\<rparr>)"
  from n have "n \<in> fst ` set ?ds"
    by (simp only: dsets_stencil_names set_dsets)
  with inv bd at mm obtain e s' where r: "register_datasets b s ?ds = (Some e, s')"
    and k: "block_datasets s' n = Some obj \<and> attrs s' obj = Some a"
    using register_datasets_mismatch by blast
  from inv r obtain msg where "e = ValueError msg"
    using register_datasets_error_kind by blast
  with r have "update_block_datasets k b s = (Some (ValueError msg), k\<lparr>stencil_names := []\<rparr>, s')"
    by (simp add: update_block_datasets_def Let_def)
  with k show ?thesis by blast
qed

lemma update_block_datasets_fields:
  assumes "update_block_datasets k b s = (e, k', s')"
  shows "block_datasets s' = block_datasets (snd (register_datasets b s (dsets k)))
         \<and> attrs s' = attrs (snd (register_datasets b s (dsets k)))"
proof -
  obtain e1 s1 where r: "register_datasets b s (dsets k) = (e1, s1)"
    by (cases "register_datasets b s (dsets k)")
  from assms r have "s' = s1 \<or> (\<exists>bs. s' = s1\<lparr>block_stencils := bs\<rparr>)"
    by (auto simp: update_block_datasets_def Let_def dsets_stencil_names
        split: option.splits sum.splits prod.splits)
  with r show ?thesis by auto
qed

lemma ex_dsets: "dsets (ex_kernel ex_eqs) = [(''a'', 0), (''c'', 0), (''b'', 0)]"
  by (simp add: dsets_def lhs_datasets_def rhs_datasets_def ex_kernel_def ex_eqs_def set_union_def)

lemma ex_registered:
  "block_datasets ex_registries ''a'' = Some (''a'', 0)
   \<and> attrs ex_registries (''a'', 0) = Some (block_attrs ex_block)"
proof -
  obtain e k' where "update_block_datasets (ex_kernel ex_eqs) ex_block empty_registries = (e, k', ex_registries)"
    unfolding ex_registries_def by (metis prod.collapse)
  then have "block_datasets ex_registries = block_datasets (snd (register_datasets ex_block empty_registries (dsets (ex_kernel ex_eqs))))
         \<and> attrs ex_registries = attrs (snd (register_datasets ex_block empty_registries (dsets (ex_kernel ex_eqs))))"
    by (rule update_block_datasets_fields)
  then show ?thesis
    by (simp add: ex_dsets register_dataset_def empty_registries_def)
qed

theorem registration_mismatch_witness:
  "reachable ex_registries
   \<and> block_datasets ex_registries ''a'' = Some (''a'', 0)
   \<and> attrs ex_registries (''a'', 0) = Some (block_attrs ex_block)
   \<and> a_size (block_attrs ex_block) = [202] \<and> shape ex_block_100 = [100]
   \<and> (\<exists>msg k' s'. update_block_datasets (ex_kernel ex_eqs) ex_block_100 ex_registries
                       = (Some (ValueError msg), k', s')
         \<and> block_datasets s' ''a'' = Some (''a'', 0)
         \<and> attrs s' (''a'', 0) = Some (block_attrs ex_block))"
proof -
  have "update_block_datasets (ex_kernel ex_eqs) ex_block empty_registries
      = (fst (update_block_datasets (ex_kernel ex_eqs) ex_block empty_registries),
         fst (snd (update_block_datasets (ex_kernel ex_eqs) ex_block empty_registries)), ex_registries)"
    unfolding ex_registries_def by simp
  with reachable_empty have re: "reachable ex_registries" by (rule reachable_update)
  from ex_registered have bd: "block_datasets ex_registries ''a'' = Some (''a'', 0)"
    and at: "attrs ex_registries (''a'', 0) = Some (block_attrs ex_block)" by blast+
  have n: "''a'' \<in> set (lhs_datasets (ex_kernel ex_eqs)) \<union> set (rhs_datasets (ex_kernel ex_eqs))"
    by (simp add: lhs_datasets_def rhs_datasets_def ex_kernel_def ex_eqs_def set_union_def)
  have sz: "a_size (block_attrs ex_block) = [202]" and sh: "shape ex_block_100 = [100]"
    by (simp_all add: block_attrs_def ex_block_def ex_block_100_def)
  then have mm: "blocknumber ex_block_100 \<noteq> a_block_number (block_attrs ex_block)
      \<or> shape ex_block_100 \<noteq> a_size (block_attrs ex_block)"
    by simp
  note w = registration_mismatch [OF re bd at n mm]
  show ?thesis by (intro conjI re bd at sz sh w)
qed

subsection \<open>The stencil registry\<close>




































end
